theory Spec2Isabelle
  imports Main
begin

section \<open>EPON port statistics: the parser and the idle-port count\<close>

text \<open>
  The development embeds two methods of the class \<open>EPONPortAnalyzer\<close>:
  \<open>parse_epon_data\<close>, which scans the lines of a captured \<open>dis onu slot N\<close> session and
  counts the ONUs of every PON port by state, and the part of \<open>generate_excel_report\<close>
  that decides which slots are shown and how many ports are reported as idle.

  A Python \<open>str\<close> is modelled as a \<open>string\<close>; a \<open>char\<close> stands for the code point of
  the same number, so the model covers text whose code points are below 256. Python
  integers are \<open>int\<close>. Exceptions are values of the type \<open>error\<close>; a function that can
  raise returns a sum, with the exception on the left.
\<close>

subsection \<open>Strings and the three regular expressions\<close>

text \<open>
  The characters for which \<open>str.isspace\<close> holds, which are also the characters that
  \<open>\s\<close> matches in a \<open>str\<close> pattern: U+0009 to U+000D, U+001C to U+0020, U+0085, U+00A0.
\<close>

definition isspace :: "char \<Rightarrow> bool" where
  "isspace c \<longleftrightarrow> c \<in> set [CHR 0x09, CHR 0x0A, CHR 0x0B, CHR 0x0C, CHR 0x0D,
     CHR 0x1C, CHR 0x1D, CHR 0x1E, CHR 0x1F, CHR 0x20, CHR 0x85, CHR 0xA0]"

text \<open>The characters that \<open>\d\<close> matches: the decimal digits.\<close>

definition isdigit :: "char \<Rightarrow> bool" where
  "isdigit c \<longleftrightarrow> c \<in> set ''0123456789''"

text \<open>\<open>line.strip()\<close>: whitespace removed at both ends.\<close>

definition strip :: "string \<Rightarrow> string" where
  "strip s = rev (dropWhile isspace (rev (dropWhile isspace s)))"

text \<open>\<open>s.startswith(k)\<close>.\<close>

definition startswith :: "string \<Rightarrow> string \<Rightarrow> bool" where
  "startswith k s \<longleftrightarrow> take (length k) s = k"

text \<open>\<open>k in s\<close>: the string \<open>k\<close> occurs in \<open>s\<close> at some position.\<close>

fun str_in :: "string \<Rightarrow> string \<Rightarrow> bool" where
  "str_in k [] = (k = [])"
| "str_in k (c # cs) = (startswith k (c # cs) \<or> str_in k cs)"

text \<open>The two exceptions that can leave \<open>parse_epon_data\<close>.\<close>

datatype error = ValueError | KeyError

text \<open>
  \<open>int(g)\<close> for a string of decimal digits. The interpreter refuses a string of more
  digits than its limit for the conversion, 4300 by default (CPython 3.11 and the
  later releases of the older versions), leading zeros counted, and raises
  \<open>ValueError\<close>.
\<close>

definition digit_val :: "char \<Rightarrow> int" where
  "digit_val c = int (of_char c) - 48"

definition digits_value :: "string \<Rightarrow> int" where
  "digits_value g = foldl (\<lambda>acc c. 10 * acc + digit_val c) 0 g"

definition max_str_digits :: nat where
  "max_str_digits = 4300"

definition py_int :: "string \<Rightarrow> error + int" where
  "py_int g = (if length g > max_str_digits then Inl ValueError else Inr (digits_value g))"

text \<open>
  \<open>re.search(p, s)\<close> tries the pattern at every position of \<open>s\<close> from the left, the end
  of the string included, and returns the first match. The argument \<open>m\<close> is the pattern
  matched at the start of a string; it returns group 1.
\<close>

fun re_search :: "(string \<Rightarrow> string option) \<Rightarrow> string \<Rightarrow> string option" where
  "re_search m [] = m []"
| "re_search m (c # cs) = (case m (c # cs) of Some g \<Rightarrow> Some g | None \<Rightarrow> re_search m cs)"

text \<open>
  The pattern \<open>dis onu slot\s+(\d+)\<close> at the start of \<open>s\<close>: the literal, one or more
  whitespace characters, one or more digits. Both repetitions are greedy, and giving
  characters back never helps, since whitespace is not a digit.
\<close>

definition slot_pattern :: "string \<Rightarrow> string option" where
  "slot_pattern s =
     (if startswith ''dis onu slot'' s then
        (let r = drop (length ''dis onu slot'') s;
             g = takeWhile isdigit (dropWhile isspace r)
         in if takeWhile isspace r \<noteq> [] \<and> g \<noteq> [] then Some g else None)
      else None)"

text \<open>
  The pattern \<open>Olt\d+/0/(\d+)\<close> at the start of \<open>s\<close>: the literal, one or more digits,
  the literal \<open>/0/\<close>, one or more digits.
\<close>

definition olt_pattern :: "string \<Rightarrow> string option" where
  "olt_pattern s =
     (if startswith ''Olt'' s then
        (let r = drop (length ''Olt'') s;
             r' = dropWhile isdigit r;
             g = takeWhile isdigit (drop (length ''/0/'') r')
         in if takeWhile isdigit r \<noteq> [] \<and> startswith ''/0/'' r' \<and> g \<noteq> [] then Some g
            else None)
      else None)"

text \<open>
  \<open>re.split(r'\s+', s)\<close>: the pieces of \<open>s\<close> between the maximal runs of whitespace,
  with an empty piece where \<open>s\<close> starts or ends with whitespace. The first argument
  tells that the scan is inside a run of whitespace, the second is the piece read so
  far, reversed.
\<close>

fun split_ws :: "bool \<Rightarrow> string \<Rightarrow> string \<Rightarrow> string list" where
  "split_ws insep cur [] = [rev cur]"
| "split_ws insep cur (c # cs) =
     (if isspace c then
        (if insep then split_ws True cur cs else rev cur # split_ws True [] cs)
      else split_ws False (c # cur) cs)"

definition re_split :: "string \<Rightarrow> string list" where
  "re_split s = split_ws False [] s"

subsection \<open>The table and the state of the scan\<close>

text \<open>
  The keys of the innermost dictionaries are three string literals of two Chinese
  characters each: \<open>Online\<close> is U+5728 U+7EBF, \<open>Offline\<close> is U+79BB U+7EBF and \<open>Silent\<close>
  is U+9759 U+9ED8.
\<close>

datatype key = Online | Offline | Silent

type_synonym counters = "key \<rightharpoonup> int"
type_synonym ports = "int \<rightharpoonup> counters"
type_synonym table = "int \<rightharpoonup> ports"

text \<open>
  The dictionary comprehension that builds the table: slots \<open>range(2, 8)\<close>, ports
  \<open>range(1, 25)\<close>, every counter 0.
\<close>

definition zero_counters :: counters where
  "zero_counters = (\<lambda>k. Some 0)"

definition zero_ports :: ports where
  "zero_ports = (\<lambda>p. if 1 \<le> p \<and> p < 25 then Some zero_counters else None)"

definition init_table :: table where
  "init_table = (\<lambda>s. if 2 \<le> s \<and> s < 8 then Some zero_ports else None)"

text \<open>The local variables of \<open>parse_epon_data\<close> that the loop reads and writes.\<close>

record pstate =
  slot_data :: table
  current_slot :: "int option"
  current_pon :: "int option"

definition init_state :: pstate where
  "init_state = \<lparr>slot_data = init_table, current_slot = None, current_pon = None\<rparr>"

text \<open>Python's truth value of a variable that holds \<open>None\<close> or an integer.\<close>

definition truthy :: "int option \<Rightarrow> bool" where
  "truthy v = (case v of None \<Rightarrow> False | Some n \<Rightarrow> n \<noteq> 0)"

text \<open>\<open>2 <= current_slot <= 7\<close>, evaluated only when \<open>current_slot\<close> is an integer.\<close>

definition slot_in_range :: "int option \<Rightarrow> bool" where
  "slot_in_range v = (case v of None \<Rightarrow> False | Some n \<Rightarrow> 2 \<le> n \<and> n \<le> 7)"

text \<open>The conditional expression that maps the state token to a key, or to \<open>None\<close>.\<close>

definition state_key :: "string \<Rightarrow> key option" where
  "state_key state =
     (if state = ''Up'' then Some Online
      else if state = ''Offline'' then Some Offline
      else if state = ''Silent'' then Some Silent
      else None)"

text \<open>
  \<open>slot_data[s][p][k] += 1\<close>. Each of the three subscripts raises \<open>KeyError\<close> when the
  key is missing.
\<close>

definition increment :: "table \<Rightarrow> int \<Rightarrow> int \<Rightarrow> key \<Rightarrow> error + table" where
  "increment sd s p k =
     (case sd s of
        None \<Rightarrow> Inl KeyError
      | Some ps \<Rightarrow>
          (case ps p of
             None \<Rightarrow> Inl KeyError
           | Some cs \<Rightarrow>
               (case cs k of
                  None \<Rightarrow> Inl KeyError
                | Some n \<Rightarrow> Inr (sd(s \<mapsto> ps(p \<mapsto> cs(k \<mapsto> n + 1)))))))"

definition noise_keywords :: "string list" where
  "noise_keywords = [''State'', ''MAC'', ''LOID'', ''LLID'', ''Port'']"

text \<open>The body of the loop over the lines, for one line.\<close>

definition loop_body :: "pstate \<Rightarrow> string \<Rightarrow> error + pstate" where
  "loop_body st raw =
     (let line = strip raw in
      if str_in ''dis onu slot'' line then
        (case re_search slot_pattern line of
           Some g \<Rightarrow>
             (case py_int g of
                Inl e \<Rightarrow> Inl e
              | Inr n \<Rightarrow> Inr (st\<lparr>current_slot := Some n\<rparr>))
         | None \<Rightarrow> Inr st)
      else if truthy (current_slot st) \<and> slot_in_range (current_slot st)
              \<and> str_in ''Olt'' line \<and> str_in ''/0/'' line then
        (case re_search olt_pattern line of
           Some g \<Rightarrow>
             (case py_int g of
                Inl e \<Rightarrow> Inl e
              | Inr n \<Rightarrow> Inr (st\<lparr>current_pon := Some n\<rparr>))
         | None \<Rightarrow> Inr st)
      else if truthy (current_slot st) \<and> truthy (current_pon st) \<and> line \<noteq> []
              \<and> \<not> startswith ''-'' line then
        (if list_ex (\<lambda>k. str_in k line) noise_keywords then Inr st
         else
           (let parts = re_split line in
            if length parts \<ge> 2 then
              (case state_key (parts ! (length parts - 2)) of
                 Some k \<Rightarrow>
                   (case increment (slot_data st) (the (current_slot st))
                           (the (current_pon st)) k of
                      Inl e \<Rightarrow> Inl e
                    | Inr sd \<Rightarrow> Inr (st\<lparr>slot_data := sd\<rparr>))
               | None \<Rightarrow> Inr st)
            else Inr st))
      else Inr st)"

text \<open>The loop: it stops at the first exception.\<close>

fun scan :: "pstate \<Rightarrow> string list \<Rightarrow> error + pstate" where
  "scan st [] = Inr st"
| "scan st (l # ls) = (case loop_body st l of Inl e \<Rightarrow> Inl e | Inr st' \<Rightarrow> scan st' ls)"

text \<open>
  \<open>parse_epon_data\<close>. Its argument is what the loop over the three encodings leaves in
  \<open>content\<close>: \<open>None\<close> when no encoding could read the file, else the lines of the file.
  \<open>not content\<close> holds for \<open>None\<close> and for the empty list.
\<close>

definition parse_epon_data :: "string list option \<Rightarrow> error + table" where
  "parse_epon_data content =
     (case content of
        None \<Rightarrow> Inl ValueError
      | Some [] \<Rightarrow> Inl ValueError
      | Some (l # ls) \<Rightarrow>
          (case scan init_state (l # ls) of
             Inl e \<Rightarrow> Inl e
           | Inr st \<Rightarrow> Inr (slot_data st)))"

subsection \<open>The report: shown slots and idle ports\<close>

text \<open>\<open>slot_data.get(slot_num, {}).get(pon_id, {}).get(k, 0)\<close>.\<close>

definition get_count :: "table \<Rightarrow> int \<Rightarrow> int \<Rightarrow> key \<Rightarrow> int" where
  "get_count sd slot_num pon_id k =
     (case sd slot_num of
        None \<Rightarrow> 0
      | Some slot_info \<Rightarrow>
          (case slot_info pon_id of
             None \<Rightarrow> 0
           | Some pon_data \<Rightarrow> (case pon_data k of None \<Rightarrow> 0 | Some n \<Rightarrow> n)))"

text \<open>The three counts of a port, as the rows of the report show them.\<close>

definition get_counts :: "table \<Rightarrow> int \<Rightarrow> int \<Rightarrow> int \<times> int \<times> int" where
  "get_counts sd slot_num pon_id =
     (get_count sd slot_num pon_id Online, get_count sd slot_num pon_id Offline,
      get_count sd slot_num pon_id Silent)"

text \<open>The flag \<open>has_data\<close> of a slot: some port of \<open>range(1, 25)\<close> has a positive count.\<close>

definition has_data :: "table \<Rightarrow> int \<Rightarrow> bool" where
  "has_data sd slot_num =
     list_ex (\<lambda>pon_id. get_count sd slot_num pon_id Online > 0
                \<or> get_count sd slot_num pon_id Offline > 0
                \<or> get_count sd slot_num pon_id Silent > 0) [1..24]"

text \<open>The flag \<open>is_idle\<close> of a port.\<close>

definition is_idle :: "table \<Rightarrow> int \<Rightarrow> int \<Rightarrow> bool" where
  "is_idle sd slot_num pon_id \<longleftrightarrow> get_count sd slot_num pon_id Online = 0"

text \<open>
  The count \<open>total_idle_count\<close>. The report has one block per slot of \<open>range(2, 8)\<close>;
  a slot whose flag \<open>has_data\<close> is false is skipped by \<open>continue\<close>. A block has two
  groups of ports, \<open>range(1, 24, 2)\<close> and \<open>range(2, 25, 2)\<close>, and five rows per group;
  only the cells of the last row, the idle row, change the count.
\<close>

datatype label = PON | Count key | Idle

definition rows :: "label list" where
  "rows = [PON, Count Online, Count Offline, Count Silent, Idle]"

definition pon_groups :: "int list list" where
  "pon_groups = [[1, 3, 5, 7, 9, 11, 13, 15, 17, 19, 21, 23],
                 [2, 4, 6, 8, 10, 12, 14, 16, 18, 20, 22, 24]]"

definition cell :: "table \<Rightarrow> int \<Rightarrow> label \<Rightarrow> int \<Rightarrow> int \<Rightarrow> int" where
  "cell sd slot_num lab pon_id idle_count =
     (case lab of
        PON \<Rightarrow> idle_count
      | Idle \<Rightarrow> (if is_idle sd slot_num pon_id then idle_count + 1 else idle_count)
      | Count k \<Rightarrow> idle_count)"

definition slot_block :: "table \<Rightarrow> int \<Rightarrow> int \<Rightarrow> int" where
  "slot_block sd slot_num idle_count =
     (if \<not> has_data sd slot_num then idle_count
      else fold (\<lambda>group. fold (\<lambda>lab. fold (cell sd slot_num lab) group) rows)
             pon_groups idle_count)"

definition total_idle_count :: "table \<Rightarrow> int" where
  "total_idle_count sd = fold (slot_block sd) [2..7] 0"

subsection \<open>Notions used in the statements\<close>

text \<open>
  The idle count as the specification words it: the number of pairs of the whole grid
  of 6 slots and 24 ports that are idle.
\<close>

definition spec_total_idle_count :: "table \<Rightarrow> int" where
  "spec_total_idle_count sd =
     int (length (filter (\<lambda>(s, p). is_idle sd s p) (List.product [2..7] [1..24])))"

text \<open>
  A table is a full grid when its slots are exactly 2 to 7, the ports of every slot are
  exactly 1 to 24, and every port has its three counters, none of them negative.
\<close>

definition full_grid :: "table \<Rightarrow> bool" where
  "full_grid sd \<longleftrightarrow>
     dom sd = {2..7} \<and>
     (\<forall>s ps. sd s = Some ps \<longrightarrow>
        dom ps = {1..24} \<and>
        (\<forall>p cs. ps p = Some cs \<longrightarrow> (\<forall>k. \<exists>n. cs k = Some n \<and> 0 \<le> n)))"

text \<open>
  The scenario of the specification, whose first line spells the command out in full,
  and the same scenario with the command as the parser looks for it.
\<close>

definition spec_doc :: "string list" where
  "spec_doc = [''display onu slot 3'', ''-- Olt3/0/5 --'',
     ''aaaa-bbbb-cccc Onu3/5/1 Up 101'', ''aaaa-bbbb-cccd Onu3/5/2 Offline 102'']"

definition dis_doc :: "string list" where
  "dis_doc = [''dis onu slot 3'', ''-- Olt3/0/5 --'',
     ''aaaa-bbbb-cccc Onu3/5/1 Up 101'', ''aaaa-bbbb-cccd Onu3/5/2 Offline 102'']"

text \<open>The all-zero table with one device online and one offline at port 5 of slot 3.\<close>

definition table_3_5 :: table where
  "table_3_5 = init_table(3 \<mapsto> zero_ports(5 \<mapsto> zero_counters(Online \<mapsto> 1, Offline \<mapsto> 1)))"

text \<open>A document whose PON header names port 25, which no slot has.\<close>

definition port_25_doc :: "string list" where
  "port_25_doc = [''dis onu slot 3'', ''-- Olt3/0/25 --'',
     ''aaaa-bbbb-cccc Onu3/25/1 Up 101'']"

text \<open>
  The frame of a call: the variables \<open>slot_data\<close>, \<open>current_slot\<close> and \<open>current_pon\<close>.
  To state that nothing passes from one call to the next, a call is run in a frame that
  holds whatever an earlier call left in these variables. The first two statements of
  the method assign all three.
\<close>

definition enter :: "pstate \<Rightarrow> pstate" where
  "enter frame = frame\<lparr>slot_data := init_table, current_slot := None, current_pon := None\<rparr>"

text \<open>The frame when the loop ends, by its last line or by an exception.\<close>

fun final_frame :: "pstate \<Rightarrow> string list \<Rightarrow> pstate" where
  "final_frame st [] = st"
| "final_frame st (l # ls) =
     (case loop_body st l of Inl e \<Rightarrow> st | Inr st' \<Rightarrow> final_frame st' ls)"

text \<open>
  A call of the method in a given frame: what it returns or raises, and the frame it
  leaves.
\<close>

definition call :: "pstate \<Rightarrow> string list option \<Rightarrow> (error + table) \<times> pstate" where
  "call frame content =
     (let st = enter frame in
      case content of
        None \<Rightarrow> (Inl ValueError, st)
      | Some [] \<Rightarrow> (Inl ValueError, st)
      | Some (l # ls) \<Rightarrow>
          (case scan st (l # ls) of
             Inl e \<Rightarrow> (Inl e, final_frame st (l # ls))
           | Inr st' \<Rightarrow> (Inr (slot_data st'), st')))"

text \<open>
  Two calls on the same content, the second in the frame that the first has left.
\<close>

definition parse_twice :: "pstate \<Rightarrow> string list option \<Rightarrow> (error + table) \<times> (error + table)" where
  "parse_twice frame content =
     (let (first, frame1) = call frame content;
          (second, frame2) = call frame1 content
      in (first, second))"

text \<open>
  The state token of a line that reaches the data branch of the loop body: the
  conditions of the loop body, up to the choice of \<open>parts[-2]\<close>.
\<close>

definition data_token :: "pstate \<Rightarrow> string \<Rightarrow> string option" where
  "data_token st raw =
     (let line = strip raw in
      if str_in ''dis onu slot'' line then None
      else if truthy (current_slot st) \<and> slot_in_range (current_slot st)
              \<and> str_in ''Olt'' line \<and> str_in ''/0/'' line then None
      else if truthy (current_slot st) \<and> truthy (current_pon st) \<and> line \<noteq> []
              \<and> \<not> startswith ''-'' line \<and> \<not> list_ex (\<lambda>k. str_in k line) noise_keywords
              \<and> length (re_split line) \<ge> 2
      then Some (re_split line ! (length (re_split line) - 2))
      else None)"

text \<open>The cell and the counter that a line increments, if it increments one.\<close>

definition incremented :: "pstate \<Rightarrow> string \<Rightarrow> (int \<times> int \<times> key) option" where
  "incremented st raw =
     (case data_token st raw of
        None \<Rightarrow> None
      | Some tok \<Rightarrow>
          (case state_key tok of
             None \<Rightarrow> None
           | Some k \<Rightarrow> Some (the (current_slot st), the (current_pon st), k)))"

text \<open>
  The number of lines of a scan that increment a given counter of a given cell; the
  count stops where the scan stops.
\<close>

fun hits :: "pstate \<Rightarrow> string list \<Rightarrow> int \<times> int \<times> key \<Rightarrow> nat" where
  "hits st [] c = 0"
| "hits st (l # ls) c =
     (case loop_body st l of
        Inl e \<Rightarrow> 0
      | Inr st' \<Rightarrow> (if incremented st l = Some c then 1 else 0) + hits st' ls c)"

text \<open>
  A line is well addressed when the digits that the slot pattern finds in it, if any,
  are at most 4300 and are the number 0 or a slot of the table, and the digits that the
  PON pattern finds in it, if any, are at most 4300 and are a number of at most 24.
\<close>

definition well_addressed :: "string \<Rightarrow> bool" where
  "well_addressed raw \<longleftrightarrow>
     (case re_search slot_pattern (strip raw) of
        None \<Rightarrow> True
      | Some g \<Rightarrow>
          (case py_int g of Inl e \<Rightarrow> False | Inr n \<Rightarrow> n = 0 \<or> (2 \<le> n \<and> n \<le> 7)))
     \<and> (case re_search olt_pattern (strip raw) of
        None \<Rightarrow> True
      | Some g \<Rightarrow> (case py_int g of Inl e \<Rightarrow> False | Inr n \<Rightarrow> 0 \<le> n \<and> n \<le> 24))"

text \<open>
  A state is addressable when its table is a full grid and a current slot or port that
  counts as true names a slot or port of the table.
\<close>

definition addressable :: "pstate \<Rightarrow> bool" where
  "addressable st \<longleftrightarrow>
     full_grid (slot_data st)
     \<and> (truthy (current_slot st) \<longrightarrow> slot_in_range (current_slot st))
     \<and> (truthy (current_pon st) \<longrightarrow> (\<exists>p. current_pon st = Some p \<and> 1 \<le> p \<and> p \<le> 24))"

text \<open>A document in which slot 9 follows a slot whose port is still current.\<close>

definition carried_port_doc :: "string list" where
  "carried_port_doc = [''dis onu slot 3'', ''-- Olt3/0/5 --'', ''dis onu slot 9'',
     ''aaaa-bbbb-cccc Onu9/5/1 Up 101'']"

section \<open>Properties\<close>

subsection \<open>Evaluation and the shape of one step\<close>

lemmas eval_simps = loop_body_def strip_def slot_pattern_def olt_pattern_def startswith_def
  isspace_def isdigit_def Let_def py_int_def digits_value_def max_str_digits_def digit_val_def
  truthy_def slot_in_range_def
  re_split_def noise_keywords_def state_key_def increment_def

lemmas table_simps = init_table_def zero_ports_def zero_counters_def

lemma has_data_iff:
  "has_data sd s \<longleftrightarrow> (\<exists>p. 1 \<le> p \<and> p \<le> 24 \<and> (get_count sd s p Online > 0
      \<or> get_count sd s p Offline > 0 \<or> get_count sd s p Silent > 0))"
  by (auto simp: has_data_def list_ex_iff)

lemma increment_Inl: "increment sd s p k = Inl e \<Longrightarrow> e = KeyError"
  by (auto simp: increment_def split: option.splits)

lemma increment_Inr:
  "increment sd s p k = Inr sd' \<Longrightarrow>
     \<exists>ps cs n. sd s = Some ps \<and> ps p = Some cs \<and> cs k = Some n
        \<and> sd' = sd(s \<mapsto> ps(p \<mapsto> cs(k \<mapsto> n + 1)))"
  by (auto simp: increment_def split: option.splits)

lemma py_int_Inl: "py_int g = Inl e \<Longrightarrow> e = ValueError \<and> max_str_digits < length g"
  by (auto simp: py_int_def split: if_splits)

lemma py_int_Inr: "py_int g = Inr n \<Longrightarrow> n = digits_value g \<and> length g \<le> max_str_digits"
  by (auto simp: py_int_def split: if_splits)

text \<open>
  A step raises \<open>ValueError\<close> only in the conversion of a number of too many digits,
  and only a slot marker or a PON header is converted.
\<close>

lemma loop_body_Inl:
  assumes "loop_body st raw = Inl e"
  shows "e = KeyError
       \<or> (e = ValueError
            \<and> ((\<exists>g. str_in ''dis onu slot'' (strip raw)
                    \<and> re_search slot_pattern (strip raw) = Some g \<and> max_str_digits < length g)
               \<or> (\<exists>g. \<not> str_in ''dis onu slot'' (strip raw) \<and> slot_in_range (current_slot st)
                    \<and> re_search olt_pattern (strip raw) = Some g \<and> max_str_digits < length g)))"
  using assms
  by (auto simp: loop_body_def Let_def split: option.splits if_splits sum.splits
           dest: increment_Inl py_int_Inl)

text \<open>A step that returns did one of four things.\<close>

lemma loop_body_Inr:
  assumes "loop_body st raw = Inr st'"
  shows "st' = st
       \<or> (\<exists>g. str_in ''dis onu slot'' (strip raw)
            \<and> re_search slot_pattern (strip raw) = Some g
            \<and> py_int g = Inr (digits_value g)
            \<and> st' = st\<lparr>current_slot := Some (digits_value g)\<rparr>)
       \<or> (\<exists>g. slot_in_range (current_slot st)
            \<and> re_search olt_pattern (strip raw) = Some g
            \<and> py_int g = Inr (digits_value g)
            \<and> st' = st\<lparr>current_pon := Some (digits_value g)\<rparr>)
       \<or> (\<exists>k sd. truthy (current_slot st) \<and> truthy (current_pon st)
            \<and> increment (slot_data st) (the (current_slot st)) (the (current_pon st)) k = Inr sd
            \<and> st' = st\<lparr>slot_data := sd\<rparr>)"
  using assms
  by (auto simp: loop_body_def Let_def split: option.splits if_splits sum.splits
           dest: py_int_Inr)

text \<open>The branch of a slot marker, case by case.\<close>

lemma loop_body_marker:
  assumes "str_in ''dis onu slot'' (strip raw)"
  shows "loop_body st raw =
           (case re_search slot_pattern (strip raw) of
              None \<Rightarrow> Inr st
            | Some g \<Rightarrow>
                (if max_str_digits < length g then Inl ValueError
                 else Inr (st\<lparr>current_slot := Some (digits_value g)\<rparr>)))"
  using assms by (auto simp: loop_body_def Let_def py_int_def split: option.splits)

lemma dis_doc_parse: "parse_epon_data (Some dis_doc) = Inr table_3_5"
  by (simp add: parse_epon_data_def dis_doc_def init_state_def eval_simps table_3_5_def
        table_simps)

lemma table_3_5_counts:
  "get_counts table_3_5 3 5 = (1, 1, 0) \<and> \<not> is_idle table_3_5 3 5"
  by (simp add: get_counts_def get_count_def is_idle_def table_3_5_def table_simps)

lemma table_3_5_has_data: "has_data table_3_5 3"
  unfolding has_data_iff
  by (rule exI [of _ 5]) (simp add: get_count_def table_3_5_def table_simps)

lemma table_3_5_others:
  "(s, p) \<noteq> (3, 5) \<Longrightarrow> get_counts table_3_5 s p = (0, 0, 0) \<and> is_idle table_3_5 s p"
  by (auto simp add: get_counts_def get_count_def is_idle_def table_3_5_def table_simps)

subsection \<open>The end-to-end scenario\<close>

text \<open>
  C1, as the specification states it, fails: the parser looks for the text
  \<open>dis onu slot\<close>, which the line \<open>display onu slot 3\<close> does not contain, so no slot is
  ever current and the table stays all zero; in particular the counts of port 5 of
  slot 3 are not (1, 1, 0).
\<close>

theorem spec_scenario_stays_zero:
  "parse_epon_data (Some spec_doc) = Inr init_table
   \<and> get_counts init_table 3 5 = (0, 0, 0)
   \<and> get_counts init_table 3 5 \<noteq> (1, 1, 0)
   \<and> is_idle init_table 3 5"
  by (simp add: parse_epon_data_def spec_doc_def init_state_def eval_simps
        get_counts_def get_count_def is_idle_def table_simps)

text \<open>
  C1, amended: with the first line \<open>dis onu slot 3\<close>, the command as the collector sends
  it, parsing the four lines gives a table in which port 5 of slot 3 has the counts
  (1, 1, 0) and is not idle, slot 3 has data, and every other pair of slot and port has
  the counts (0, 0, 0) and is idle.
\<close>

theorem dis_scenario:
  "\<exists>sd. parse_epon_data (Some dis_doc) = Inr sd
     \<and> get_counts sd 3 5 = (1, 1, 0) \<and> \<not> is_idle sd 3 5 \<and> has_data sd 3
     \<and> (\<forall>s p. (s, p) \<noteq> (3, 5) \<longrightarrow> get_counts sd s p = (0, 0, 0) \<and> is_idle sd s p)"
  using dis_doc_parse table_3_5_counts table_3_5_has_data table_3_5_others by blast

theorem dis_scenario_witness:
  "\<exists>sd. parse_epon_data (Some dis_doc) = Inr sd
     \<and> get_counts sd 3 5 = (1, 1, 0)
     \<and> get_counts sd 3 6 = (0, 0, 0) \<and> is_idle sd 3 6
     \<and> get_counts sd 2 5 = (0, 0, 0) \<and> is_idle sd 2 5"
proof -
  from dis_scenario obtain sd where
    sd: "parse_epon_data (Some dis_doc) = Inr sd" "get_counts sd 3 5 = (1, 1, 0)"
    and others: "\<forall>s p. (s, p) \<noteq> (3, 5) \<longrightarrow> get_counts sd s p = (0, 0, 0) \<and> is_idle sd s p"
    by blast
  have "((3::int), (6::int)) \<noteq> (3, 5)" and "((2::int), (5::int)) \<noteq> (3, 5)"
    by simp_all
  with others have "get_counts sd 3 6 = (0, 0, 0) \<and> is_idle sd 3 6"
    and "get_counts sd 2 5 = (0, 0, 0) \<and> is_idle sd 2 5"
    by blast+
  with sd show ?thesis by blast
qed

subsection \<open>A port outside the grid\<close>

text \<open>
  C2: a PON header that names port 25 is accepted, and the state line after it makes
  the parser subscript the ports of slot 3 with 25: \<open>KeyError\<close> leaves \<open>parse_epon_data\<close>
  instead of the line being skipped. The same happens with the slots: the marker of
  slot 9 after a slot whose port is still current makes a state line subscript the
  table with 9.
\<close>

theorem port_25_raises_KeyError:
  "parse_epon_data (Some port_25_doc) = Inl KeyError
   \<and> parse_epon_data (Some carried_port_doc) = Inl KeyError"
  by (simp add: parse_epon_data_def port_25_doc_def carried_port_doc_def init_state_def
        eval_simps table_simps)

subsection \<open>The table is always the full grid\<close>

lemma full_grid_init: "full_grid init_table"
  by (auto simp: full_grid_def init_table_def zero_ports_def zero_counters_def dom_def
      split: if_splits)

lemma get_count_init: "get_count init_table s p k = 0"
  by (simp add: get_count_def table_simps)

lemma get_count_increment:
  assumes "increment sd s p k = Inr sd'"
  shows "get_count sd' s' p' k' =
           get_count sd s' p' k' + (if (s', p', k') = (s, p, k) then 1 else 0)"
  using increment_Inr [OF assms]
  by (auto simp: get_count_def)

lemma full_grid_increment:
  assumes "increment sd s p k = Inr sd'" "full_grid sd"
  shows "full_grid sd'"
proof -
  from increment_Inr [OF assms(1)] obtain ps cs n where
    h: "sd s = Some ps" "ps p = Some cs" "cs k = Some n"
       "sd' = sd(s \<mapsto> ps(p \<mapsto> cs(k \<mapsto> n + 1)))" by blast
  from assms(2) h(1) have d: "dom sd = {2..7}" "dom ps = {1..24}"
    and c: "\<And>p cs. ps p = Some cs \<Longrightarrow> (\<forall>k. \<exists>n. cs k = Some n \<and> 0 \<le> n)"
    and o: "\<And>s ps. sd s = Some ps \<Longrightarrow> dom ps = {1..24} \<and>
        (\<forall>p cs. ps p = Some cs \<longrightarrow> (\<forall>k. \<exists>n. cs k = Some n \<and> 0 \<le> n))"
    unfolding full_grid_def by blast+
  have s: "s \<in> dom sd" and p: "p \<in> dom ps" using h by auto
  from c [OF h(2)] obtain m where "cs k = Some m" "0 \<le> m" by blast
  with h(3) have n: "0 \<le> n" by simp
  show ?thesis
    unfolding full_grid_def h(4)
  proof (intro conjI allI impI)
    show "dom (sd(s \<mapsto> ps(p \<mapsto> cs(k \<mapsto> n + 1)))) = {2..7}"
      using s d(1) by (simp add: insert_absorb)
  next
    fix s' ps' assume a: "(sd(s \<mapsto> ps(p \<mapsto> cs(k \<mapsto> n + 1)))) s' = Some ps'"
    show "dom ps' = {1..24}"
    proof (cases "s' = s")
      case False
      with a o show ?thesis by simp
    next
      case True
      with a have "dom ps' = insert p (dom ps)" by auto
      with p d(2) show ?thesis by (simp add: insert_absorb)
    qed
  next
    fix s' ps' p' cs' k'
    assume a: "(sd(s \<mapsto> ps(p \<mapsto> cs(k \<mapsto> n + 1)))) s' = Some ps'" "ps' p' = Some cs'"
    show "\<exists>n. cs' k' = Some n \<and> 0 \<le> n"
    proof (cases "s' = s")
      case False
      with a o show ?thesis by auto
    next
      case True
      with a have ps': "ps' = ps(p \<mapsto> cs(k \<mapsto> n + 1))" by simp
      show ?thesis
      proof (cases "p' = p")
        case False
        with a(2) ps' c show ?thesis by auto
      next
        case True
        with a(2) ps' have "cs' = cs(k \<mapsto> n + 1)" by simp
        with c [OF h(2)] n show ?thesis by auto
      qed
    qed
  qed
qed

lemma increment_ok:
  assumes "full_grid sd" "2 \<le> s" "s \<le> 7" "1 \<le> p" "p \<le> 24"
  shows "\<exists>sd'. increment sd s p k = Inr sd'"
proof -
  from assms have "s \<in> dom sd" by (simp add: full_grid_def)
  then obtain ps where ps: "sd s = Some ps" by auto
  with assms have "p \<in> dom ps" by (simp add: full_grid_def)
  then obtain cs where cs: "ps p = Some cs" by auto
  with assms(1) ps obtain n where "cs k = Some n" unfolding full_grid_def by blast
  with ps cs show ?thesis by (simp add: increment_def)
qed

lemma loop_body_incremented_None:
  assumes "incremented st raw = None" "loop_body st raw = Inr st'"
  shows "slot_data st' = slot_data st"
  using assms
  by (auto simp: loop_body_def incremented_def data_token_def Let_def
           split: option.splits if_splits sum.splits)

lemma loop_body_incremented_Some:
  assumes "incremented st raw = Some (s, p, k)"
  shows "loop_body st raw =
           (case increment (slot_data st) s p k of
              Inl e \<Rightarrow> Inl e | Inr sd \<Rightarrow> Inr (st\<lparr>slot_data := sd\<rparr>))"
  using assms
  by (auto simp: loop_body_def incremented_def data_token_def Let_def
           split: option.splits if_splits sum.splits)

lemma loop_body_full_grid:
  assumes "loop_body st raw = Inr st'" "full_grid (slot_data st)"
  shows "full_grid (slot_data st')"
  using loop_body_Inr [OF assms(1)] assms(2) full_grid_increment by auto

lemma loop_body_counts:
  assumes "loop_body st raw = Inr st'"
  shows "get_count (slot_data st') s p k =
           get_count (slot_data st) s p k + (if incremented st raw = Some (s, p, k) then 1 else 0)"
proof (cases "incremented st raw")
  case None
  with loop_body_incremented_None [OF None assms] show ?thesis by simp
next
  case (Some c)
  obtain s0 p0 k0 where c: "c = (s0, p0, k0)" by (cases c) auto
  from loop_body_incremented_Some [OF Some [unfolded c]] assms
  obtain sd where "increment (slot_data st) s0 p0 k0 = Inr sd" "st' = st\<lparr>slot_data := sd\<rparr>"
    by (auto split: sum.splits)
  with get_count_increment [of "slot_data st" s0 p0 k0 sd s p k] Some c
  show ?thesis by auto
qed

lemma scan_full_grid:
  "scan st ls = Inr st' \<Longrightarrow> full_grid (slot_data st) \<Longrightarrow> full_grid (slot_data st')"
proof (induction ls arbitrary: st)
  case Nil
  then show ?case by simp
next
  case (Cons l ls)
  then show ?case
    by (auto split: sum.splits dest: loop_body_full_grid)
qed

lemma scan_counts:
  "scan st ls = Inr st' \<Longrightarrow>
     get_count (slot_data st') s p k = get_count (slot_data st) s p k + int (hits st ls (s, p, k))"
proof (induction ls arbitrary: st)
  case Nil
  then show ?case by simp
next
  case (Cons l ls)
  then obtain st1 where st1: "loop_body st l = Inr st1" "scan st1 ls = Inr st'"
    by (auto split: sum.splits)
  from Cons.IH [OF st1(2)] loop_body_counts [OF st1(1), of s p k] st1(1)
  show ?case by simp
qed

text \<open>A well-addressed line takes an addressable state to an addressable state.\<close>

lemma loop_body_addressable:
  assumes "addressable st" "well_addressed raw"
  shows "\<exists>st'. loop_body st raw = Inr st' \<and> addressable st'"
proof (cases "incremented st raw")
  case (Some c)
  obtain s p k where c: "c = (s, p, k)" by (cases c) auto
  from Some c have tr: "truthy (current_slot st)" "truthy (current_pon st)"
      "s = the (current_slot st)" "p = the (current_pon st)"
    by (auto simp: incremented_def data_token_def Let_def split: option.splits if_splits)
  with assms(1) have r: "2 \<le> s" "s \<le> 7" "1 \<le> p" "p \<le> 24"
    by (auto simp: addressable_def slot_in_range_def split: option.splits)
  from assms(1) have g: "full_grid (slot_data st)" by (simp add: addressable_def)
  from increment_ok [OF g r, of k] obtain sd' where
    sd': "increment (slot_data st) s p k = Inr sd'" by blast
  with loop_body_incremented_Some [OF Some [unfolded c]]
  have lb: "loop_body st raw = Inr (st\<lparr>slot_data := sd'\<rparr>)" by simp
  from full_grid_increment [OF sd' g] assms(1)
  have "addressable (st\<lparr>slot_data := sd'\<rparr>)" by (simp add: addressable_def)
  with lb show ?thesis by blast
next
  case None
  have "\<exists>st'. loop_body st raw = Inr st'"
    using None assms(2)
    by (auto simp: loop_body_def incremented_def data_token_def well_addressed_def Let_def
           split: option.splits if_splits sum.splits)
  then obtain st' where st': "loop_body st raw = Inr st'" by blast
  from loop_body_incremented_None [OF None st'] have sd: "slot_data st' = slot_data st" .
  from assms(1) have a: "full_grid (slot_data st)"
      "truthy (current_slot st) \<longrightarrow> slot_in_range (current_slot st)"
      "truthy (current_pon st) \<longrightarrow> (\<exists>p. current_pon st = Some p \<and> 1 \<le> p \<and> p \<le> 24)"
    by (simp_all add: addressable_def)
  from loop_body_Inr [OF st'] consider
      (same) "st' = st"
    | (slot) g where "re_search slot_pattern (strip raw) = Some g"
        "py_int g = Inr (digits_value g)"
        "st' = st\<lparr>current_slot := Some (digits_value g)\<rparr>"
    | (pon) g where "re_search olt_pattern (strip raw) = Some g"
        "py_int g = Inr (digits_value g)"
        "st' = st\<lparr>current_pon := Some (digits_value g)\<rparr>"
    | (incr) sd' where "st' = st\<lparr>slot_data := sd'\<rparr>"
    by blast
  then have "addressable st'"
  proof cases
    case same
    with assms(1) show ?thesis by simp
  next
    case slot
    with assms(2) have "digits_value g = 0 \<or> (2 \<le> digits_value g \<and> digits_value g \<le> 7)"
      by (simp add: well_addressed_def)
    with slot(3) a show ?thesis
      by (auto simp: addressable_def truthy_def slot_in_range_def)
  next
    case pon
    with assms(2) have "0 \<le> digits_value g \<and> digits_value g \<le> 24"
      by (simp add: well_addressed_def)
    with pon(3) a show ?thesis
      by (auto simp: addressable_def truthy_def)
  next
    case incr
    with sd have "st' = st" by simp
    with assms(1) show ?thesis by simp
  qed
  with st' show ?thesis by blast
qed

lemma scan_addressable:
  "addressable st \<Longrightarrow> list_all well_addressed ls \<Longrightarrow> \<exists>st'. scan st ls = Inr st'"
proof (induction ls arbitrary: st)
  case Nil
  then show ?case by simp
next
  case (Cons l ls)
  from loop_body_addressable [of st l] Cons.prems obtain st1 where
    "loop_body st l = Inr st1" "addressable st1" by auto
  with Cons.IH [of st1] Cons.prems(2) show ?case by auto
qed

lemma addressable_init: "addressable init_state"
  by (simp add: addressable_def init_state_def full_grid_init truthy_def)

lemma full_grid_cells:
  assumes "full_grid sd"
  shows "{(s, p). \<exists>ps. sd s = Some ps \<and> p \<in> dom ps} = {2..7} \<times> {1..24}"
proof -
  from assms have d: "dom sd = {2..7}"
    and o: "\<And>s ps. sd s = Some ps \<Longrightarrow> dom ps = {1..24}"
    unfolding full_grid_def by blast+
  show ?thesis
  proof (intro set_eqI iffI)
    fix x :: "int \<times> int" assume "x \<in> {(s, p). \<exists>ps. sd s = Some ps \<and> p \<in> dom ps}"
    then obtain s p ps where x: "x = (s, p)" "sd s = Some ps" "p \<in> dom ps" by auto
    from x(2) have "s \<in> dom sd" by auto
    with d o [OF x(2)] x show "x \<in> {2..7} \<times> {1..24}" by simp
  next
    fix x :: "int \<times> int" assume a: "x \<in> {2..7} \<times> {1..24}"
    then obtain s p where x: "x = (s, p)" "s \<in> {2..7}" "p \<in> {1..24}" by auto
    with d have "s \<in> dom sd" by simp
    then obtain ps where ps: "sd s = Some ps" by auto
    with o x(3) have "p \<in> dom ps" by simp
    with ps x(1) show "x \<in> {(s, p). \<exists>ps. sd s = Some ps \<and> p \<in> dom ps}" by auto
  qed
qed

lemma full_grid_card:
  "full_grid sd \<Longrightarrow> card {(s, p). \<exists>ps. sd s = Some ps \<and> p \<in> dom ps} = 144"
  by (simp add: full_grid_cells card_cartesian_product)

text \<open>
  C5, as the specification states it, fails for the empty document: \<open>not content\<close>
  holds for the empty list of lines, and the parser raises \<open>ValueError\<close> instead of
  returning a table.
\<close>

theorem empty_document_raises:
  "parse_epon_data (Some []) = Inl ValueError"
  by (simp add: parse_epon_data_def)

text \<open>
  C5, amended: whenever the parser returns a table, the table is the full grid, its
  slots 2 to 7 with ports 1 to 24 each, 144 pairs, every counter defined and not
  negative; every counter equals the number of lines that incremented it, so it is 0
  when no line did. The parser returns a table for every document that is not empty
  and whose lines are well addressed: the numbers of its slot markers have at most
  4300 digits and are 0 or a slot from 2 to 7, those of its PON headers have at most
  4300 digits and are at most 24.
\<close>

theorem parse_table_is_full_grid:
  "(parse_epon_data (Some ls) = Inr sd \<longrightarrow>
      full_grid sd
      \<and> card {(s, p). \<exists>ps. sd s = Some ps \<and> p \<in> dom ps} = 144
      \<and> (\<forall>s p k. get_count sd s p k = int (hits init_state ls (s, p, k))))
   \<and> (ls \<noteq> [] \<and> list_all well_addressed ls \<longrightarrow> (\<exists>sd. parse_epon_data (Some ls) = Inr sd))"
proof (intro conjI impI)
  assume a: "parse_epon_data (Some ls) = Inr sd"
  then obtain st where st: "scan init_state ls = Inr st" "sd = slot_data st"
    by (auto simp: parse_epon_data_def split: list.splits sum.splits)
  from scan_full_grid [OF st(1)] full_grid_init st(2)
  show g: "full_grid sd" by (simp add: init_state_def)
  from full_grid_card [OF g]
  show "card {(s, p). \<exists>ps. sd s = Some ps \<and> p \<in> dom ps} = 144" .
  show "\<forall>s p k. get_count sd s p k = int (hits init_state ls (s, p, k))"
    using scan_counts [OF st(1)] st(2) by (simp add: init_state_def get_count_init)
next
  assume "ls \<noteq> [] \<and> list_all well_addressed ls"
  with scan_addressable [OF addressable_init, of ls]
  show "\<exists>sd. parse_epon_data (Some ls) = Inr sd"
    by (auto simp: parse_epon_data_def split: list.splits)
qed

theorem parse_table_is_full_grid_witness:
  "parse_epon_data (Some dis_doc) = Inr table_3_5
   \<and> full_grid table_3_5
   \<and> card {(s, p). \<exists>ps. table_3_5 s = Some ps \<and> p \<in> dom ps} = 144
   \<and> get_count table_3_5 3 5 Online = int (hits init_state dis_doc (3, 5, Online))
   \<and> hits init_state dis_doc (3, 5, Online) = 1
   \<and> hits init_state dis_doc (3, 6, Online) = 0
   \<and> list_all well_addressed dis_doc"
proof -
  have w: "list_all well_addressed dis_doc"
    by (simp add: dis_doc_def well_addressed_def eval_simps)
  have h: "hits init_state dis_doc (3, 5, Online) = 1" "hits init_state dis_doc (3, 6, Online) = 0"
    by (simp_all add: dis_doc_def incremented_def data_token_def init_state_def eval_simps
          table_simps)
  from parse_table_is_full_grid [of dis_doc table_3_5] dis_doc_parse w h
  show ?thesis by simp
qed

subsection \<open>The state token\<close>

text \<open>
  C6: on a line that reaches the data branch, with the current slot and port naming a
  cell of the table, the token before the last one decides: \<open>Up\<close> adds 1 to the online
  count of that cell, \<open>Offline\<close> to its offline count, \<open>Silent\<close> to its silent count,
  and nothing else changes; any other token changes no counter at all. The current
  slot and port stay as they are.
\<close>

theorem state_token_decides:
  assumes line: "line = strip raw"
    and no_marker: "\<not> str_in ''dis onu slot'' line"
    and no_header: "\<not> (str_in ''Olt'' line \<and> str_in ''/0/'' line)"
    and slot: "current_slot st = Some s" "2 \<le> s" "s \<le> 7"
    and pon: "current_pon st = Some p" "1 \<le> p" "p \<le> 24"
    and grid: "full_grid (slot_data st)"
    and data: "line \<noteq> []" "\<not> startswith ''-'' line"
      "\<not> list_ex (\<lambda>k. str_in k line) noise_keywords"
    and toks: "2 \<le> length (re_split line)"
      "tok = re_split line ! (length (re_split line) - 2)"
  shows "\<exists>st'. loop_body st raw = Inr st'
           \<and> current_slot st' = current_slot st \<and> current_pon st' = current_pon st
           \<and> (\<forall>s' p' k. get_count (slot_data st') s' p' k =
                 get_count (slot_data st) s' p' k +
                 (if (s', p') = (s, p) \<and> (tok = ''Up'' \<and> k = Online
                       \<or> tok = ''Offline'' \<and> k = Offline \<or> tok = ''Silent'' \<and> k = Silent)
                  then 1 else 0))"
proof -
  have tr: "truthy (current_slot st)" "truthy (current_pon st)"
    using slot pon by (simp_all add: truthy_def)
  have lb: "loop_body st raw =
      (case state_key tok of
         Some k \<Rightarrow> (case increment (slot_data st) s p k of
                      Inl e \<Rightarrow> Inl e | Inr sd \<Rightarrow> Inr (st\<lparr>slot_data := sd\<rparr>))
       | None \<Rightarrow> Inr st)"
    using no_marker no_header tr data toks slot(1) pon(1)
    unfolding loop_body_def line [symmetric] Let_def
    by (auto split: option.splits)
  show ?thesis
  proof (cases "state_key tok")
    case None
    then have "tok \<noteq> ''Up''" "tok \<noteq> ''Offline''" "tok \<noteq> ''Silent''"
      by (auto simp: state_key_def split: if_splits)
    with lb None show ?thesis by simp
  next
    case (Some k0)
    from increment_ok [OF grid slot(2,3) pon(2,3), of k0] obtain sd' where
      sd': "increment (slot_data st) s p k0 = Inr sd'" by blast
    from Some have k0: "\<And>k. (tok = ''Up'' \<and> k = Online
        \<or> tok = ''Offline'' \<and> k = Offline \<or> tok = ''Silent'' \<and> k = Silent) \<longleftrightarrow> k = k0"
      by (auto simp: state_key_def split: if_splits)
    from lb Some sd' have "loop_body st raw = Inr (st\<lparr>slot_data := sd'\<rparr>)" by simp
    with get_count_increment [OF sd'] k0 show ?thesis by auto
  qed
qed

theorem state_token_decides_witness:
  "(\<exists>st'. loop_body \<lparr>slot_data = init_table, current_slot = Some 3, current_pon = Some 5\<rparr>
            ''aaaa-bbbb-cccc Onu3/5/1 Up 101'' = Inr st'
      \<and> get_counts (slot_data st') 3 5 = (1, 0, 0)
      \<and> get_counts (slot_data st') 3 6 = (0, 0, 0))
   \<and> (\<exists>st'. loop_body \<lparr>slot_data = init_table, current_slot = Some 3, current_pon = Some 5\<rparr>
            ''aaaa-bbbb-cccc Onu3/5/1 Disabled 101'' = Inr st'
      \<and> get_counts (slot_data st') 3 5 = (0, 0, 0))"
proof -
  let ?st = "\<lparr>slot_data = init_table, current_slot = Some 3, current_pon = Some 5\<rparr>"
  have up: "\<exists>st'. loop_body ?st ''aaaa-bbbb-cccc Onu3/5/1 Up 101'' = Inr st'
      \<and> current_slot st' = current_slot ?st \<and> current_pon st' = current_pon ?st
      \<and> (\<forall>s' p' k. get_count (slot_data st') s' p' k =
            get_count (slot_data ?st) s' p' k +
            (if (s', p') = (3, 5) \<and> (''Up'' = ''Up'' \<and> k = Online
                  \<or> ''Up'' = ''Offline'' \<and> k = Offline \<or> ''Up'' = ''Silent'' \<and> k = Silent)
             then 1 else 0))"
    by (rule state_token_decides [where line = "''aaaa-bbbb-cccc Onu3/5/1 Up 101''"])
       (simp_all add: eval_simps full_grid_init)
  have dis: "\<exists>st'. loop_body ?st ''aaaa-bbbb-cccc Onu3/5/1 Disabled 101'' = Inr st'
      \<and> current_slot st' = current_slot ?st \<and> current_pon st' = current_pon ?st
      \<and> (\<forall>s' p' k. get_count (slot_data st') s' p' k =
            get_count (slot_data ?st) s' p' k +
            (if (s', p') = (3, 5) \<and> (''Disabled'' = ''Up'' \<and> k = Online
                  \<or> ''Disabled'' = ''Offline'' \<and> k = Offline
                  \<or> ''Disabled'' = ''Silent'' \<and> k = Silent)
             then 1 else 0))"
    by (rule state_token_decides [where line = "''aaaa-bbbb-cccc Onu3/5/1 Disabled 101''"])
       (simp_all add: eval_simps full_grid_init)
  from up obtain st1 where st1:
      "loop_body ?st ''aaaa-bbbb-cccc Onu3/5/1 Up 101'' = Inr st1"
      "\<And>s' p' k. get_count (slot_data st1) s' p' k =
         get_count init_table s' p' k + (if (s', p') = (3, 5) \<and> k = Online then 1 else 0)"
    by auto
  from dis obtain st2 where st2:
      "loop_body ?st ''aaaa-bbbb-cccc Onu3/5/1 Disabled 101'' = Inr st2"
      "\<And>s' p' k. get_count (slot_data st2) s' p' k = get_count init_table s' p' k"
    by auto
  have "get_counts (slot_data st1) 3 5 = (1, 0, 0)" "get_counts (slot_data st1) 3 6 = (0, 0, 0)"
    "get_counts (slot_data st2) 3 5 = (0, 0, 0)"
    by (simp_all add: get_counts_def st1(2) st2(2) get_count_init)
  with st1(1) st2(1) show ?thesis by blast
qed

subsection \<open>The idle flag\<close>

text \<open>
  C7: whatever the offline and silent counts of a port are, the port is idle exactly
  when its online count is 0.
\<close>

theorem is_idle_iff_online_zero:
  assumes "get_counts sd s p = (on, off, si)"
  shows "is_idle sd s p \<longleftrightarrow> on = 0"
  using assms by (simp add: get_counts_def is_idle_def)

theorem is_idle_iff_online_zero_witness:
  "is_idle (init_table(3 \<mapsto> zero_ports(5 \<mapsto> zero_counters(Offline \<mapsto> 5, Silent \<mapsto> 2)))) 3 5
   \<and> \<not> is_idle (init_table(3 \<mapsto> zero_ports(5 \<mapsto> zero_counters(Online \<mapsto> 1)))) 3 5"
proof -
  have a: "get_counts (init_table(3 \<mapsto> zero_ports(5 \<mapsto> zero_counters(Offline \<mapsto> 5, Silent \<mapsto> 2))))
             3 5 = (0, 5, 2)"
    by (simp add: get_counts_def get_count_def table_simps)
  have b: "get_counts (init_table(3 \<mapsto> zero_ports(5 \<mapsto> zero_counters(Online \<mapsto> 1)))) 3 5
             = (1, 0, 0)"
    by (simp add: get_counts_def get_count_def table_simps)
  from is_idle_iff_online_zero [OF a] is_idle_iff_online_zero [OF b]
  show ?thesis by simp
qed

subsection \<open>Slot markers and PON headers\<close>

text \<open>
  C8: a line that contains the slot marker changes at most \<open>current_slot\<close>; the current
  port and the table are what they were before the line. The step returns, unless the
  number of the marker has more than 4300 digits: then \<open>int\<close> raises \<open>ValueError\<close>, and
  nothing has been assigned.
\<close>

theorem slot_marker_keeps_current_pon:
  assumes "str_in ''dis onu slot'' (strip raw)"
  shows "(\<exists>g. re_search slot_pattern (strip raw) = Some g \<and> max_str_digits < length g
            \<and> loop_body st raw = Inl ValueError)
       \<or> (\<exists>st'. loop_body st raw = Inr st' \<and> current_pon st' = current_pon st
            \<and> slot_data st' = slot_data st)"
  unfolding loop_body_marker [OF assms] by (auto split: option.splits)

theorem slot_marker_keeps_current_pon_witness:
  "\<exists>st'. loop_body \<lparr>slot_data = init_table, current_slot = Some 3, current_pon = Some 5\<rparr>
            ''dis onu slot 4'' = Inr st'
     \<and> current_pon st' = Some 5 \<and> current_slot st' = Some 4"
proof -
  have m: "str_in ''dis onu slot'' (strip ''dis onu slot 4'')"
    by (simp add: eval_simps)
  have v: "loop_body \<lparr>slot_data = init_table, current_slot = Some 3, current_pon = Some 5\<rparr>
             ''dis onu slot 4''
           = Inr \<lparr>slot_data = init_table, current_slot = Some 4, current_pon = Some 5\<rparr>"
    by (simp add: eval_simps)
  from slot_marker_keeps_current_pon [OF m,
      of "\<lparr>slot_data = init_table, current_slot = Some 3, current_pon = Some 5\<rparr>"] v
  show ?thesis by simp
qed

text \<open>
  C10: when \<open>current_slot\<close> is \<open>None\<close>, 0 or any other integer outside 2 to 7, no line
  changes \<open>current_pon\<close>, a PON header in particular: the step either raises
  \<open>KeyError\<close> or returns a state with the same current port. Only a slot marker can
  raise \<open>ValueError\<close> instead, since no PON header is converted in such a state.
\<close>

theorem pon_header_needs_slot_in_range:
  assumes "\<not> slot_in_range (current_slot st)"
  shows "loop_body st raw = Inl KeyError
       \<or> (str_in ''dis onu slot'' (strip raw) \<and> loop_body st raw = Inl ValueError)
       \<or> (\<exists>st'. loop_body st raw = Inr st' \<and> current_pon st' = current_pon st)"
proof (cases "loop_body st raw")
  case (Inl e)
  from loop_body_Inl [OF Inl] assms Inl show ?thesis by auto
next
  case (Inr st')
  from loop_body_Inr [OF Inr] assms have "current_pon st' = current_pon st"
    by auto
  with Inr show ?thesis by simp
qed

theorem pon_header_needs_slot_in_range_witness:
  "\<not> slot_in_range (Some 9)
   \<and> loop_body \<lparr>slot_data = init_table, current_slot = Some 9, current_pon = Some 5\<rparr>
       ''-- Olt9/0/7 --''
     = Inr \<lparr>slot_data = init_table, current_slot = Some 9, current_pon = Some 5\<rparr>
   \<and> loop_body \<lparr>slot_data = init_table, current_slot = None, current_pon = None\<rparr>
       ''Olt3/0/7''
     = Inr \<lparr>slot_data = init_table, current_slot = None, current_pon = None\<rparr>"
proof -
  have h: "\<not> slot_in_range
             (current_slot \<lparr>slot_data = init_table, current_slot = Some 9, current_pon = Some 5\<rparr>)"
    by (simp add: slot_in_range_def)
  from pon_header_needs_slot_in_range [OF h, of "''-- Olt9/0/7 --''"]
  show ?thesis by (simp add: eval_simps)
qed

text \<open>
  C3, as the specification states it, fails: the marker for slot 9 stores 9 in
  \<open>current_slot\<close>, and when a port is still current from an earlier slot, a state line
  under that marker is not ignored but raises \<open>KeyError\<close>.
\<close>

theorem slot_9_is_stored:
  "loop_body init_state ''dis onu slot 9'' = Inr (init_state\<lparr>current_slot := Some 9\<rparr>)
   \<and> parse_epon_data (Some carried_port_doc) = Inl KeyError"
  by (simp add: parse_epon_data_def carried_port_doc_def init_state_def eval_simps table_simps)

lemma re_search_slot_pattern_in:
  "re_search slot_pattern s = Some g \<Longrightarrow> str_in ''dis onu slot'' s"
proof (induction s)
  case Nil
  then show ?case by (simp add: slot_pattern_def startswith_def)
next
  case (Cons c cs)
  show ?case
  proof (cases "slot_pattern (c # cs)")
    case None
    with Cons show ?thesis by simp
  next
    case (Some g')
    then have "startswith ''dis onu slot'' (c # cs)"
      by (simp add: slot_pattern_def split: if_splits)
    then show ?thesis by simp
  qed
qed

lemma loop_body_inert:
  assumes "\<not> slot_in_range (current_slot st)" "\<not> truthy (current_pon st)"
    "\<not> str_in ''dis onu slot'' (strip raw)"
  shows "loop_body st raw = Inr st"
  using assms by (simp add: loop_body_def Let_def)

lemma scan_inert:
  assumes "\<not> slot_in_range (current_slot st)" "\<not> truthy (current_pon st)"
    "\<forall>l\<in>set ls. \<not> str_in ''dis onu slot'' (strip l)"
  shows "scan st ls = Inr st"
  using assms by (induction ls) (simp_all add: loop_body_inert)

text \<open>Under a slot that the table does not have, a line that returns changes nothing.\<close>

lemma loop_body_no_slot:
  assumes "\<not> slot_in_range (current_slot st)" "full_grid (slot_data st)"
    "\<not> str_in ''dis onu slot'' (strip raw)"
  shows "loop_body st raw = Inr st \<or> loop_body st raw = Inl KeyError"
proof (cases "loop_body st raw")
  case (Inl e)
  from loop_body_Inl [OF Inl] assms(1,3) Inl show ?thesis by auto
next
  case (Inr st')
  have "st' = st"
  proof (rule ccontr)
    assume ne: "st' \<noteq> st"
    with loop_body_Inr [OF Inr] assms(1,3) obtain k sd where
      t: "truthy (current_slot st)"
      and i: "increment (slot_data st) (the (current_slot st)) (the (current_pon st)) k = Inr sd"
      by auto
    from t obtain n where n: "current_slot st = Some n" by (auto simp: truthy_def split: option.splits)
    with assms(1) have "n \<notin> {2..7}" by (simp add: slot_in_range_def)
    with assms(2) have "slot_data st n = None" by (auto simp: full_grid_def)
    with i n show False by (simp add: increment_def)
  qed
  with Inr show ?thesis by simp
qed

text \<open>
  C3, amended: in every state, a slot marker whose number is outside 2 to 7, and of at
  most 4300 digits, stores that number in \<open>current_slot\<close>. Under that marker, a line
  without a slot marker that is processed without exception changes nothing, a PON
  header included: neither the table nor the current slot nor the current port. When
  no port is current at that marker, every line up to the next slot marker is
  processed without exception, so all of them are ignored.
\<close>

theorem out_of_range_slot_is_stored:
  assumes "re_search slot_pattern (strip raw) = Some g"
    and "length g \<le> max_str_digits"
    and "\<not> (2 \<le> digits_value g \<and> digits_value g \<le> 7)"
  shows "loop_body st raw = Inr (st\<lparr>current_slot := Some (digits_value g)\<rparr>)
     \<and> (full_grid (slot_data st) \<longrightarrow>
          (\<forall>l. \<not> str_in ''dis onu slot'' (strip l) \<longrightarrow>
             loop_body (st\<lparr>current_slot := Some (digits_value g)\<rparr>) l
               = Inr (st\<lparr>current_slot := Some (digits_value g)\<rparr>)
             \<or> loop_body (st\<lparr>current_slot := Some (digits_value g)\<rparr>) l = Inl KeyError))
     \<and> (\<not> truthy (current_pon st) \<longrightarrow>
          (\<forall>ls. (\<forall>l\<in>set ls. \<not> str_in ''dis onu slot'' (strip l)) \<longrightarrow>
             scan st (raw # ls) = Inr (st\<lparr>current_slot := Some (digits_value g)\<rparr>)))"
proof (intro conjI impI allI)
  from re_search_slot_pattern_in [OF assms(1)] assms(1,2)
  show stored: "loop_body st raw = Inr (st\<lparr>current_slot := Some (digits_value g)\<rparr>)"
    by (simp add: loop_body_marker)
  {
    fix l
    assume "full_grid (slot_data st)" "\<not> str_in ''dis onu slot'' (strip l)"
    with assms(3)
    show "loop_body (st\<lparr>current_slot := Some (digits_value g)\<rparr>) l
            = Inr (st\<lparr>current_slot := Some (digits_value g)\<rparr>)
          \<or> loop_body (st\<lparr>current_slot := Some (digits_value g)\<rparr>) l = Inl KeyError"
      by (intro loop_body_no_slot) (simp_all add: slot_in_range_def)
  }
  {
    fix ls
    assume "\<not> truthy (current_pon st)" "\<forall>l\<in>set ls. \<not> str_in ''dis onu slot'' (strip l)"
    with assms(3)
    have "scan (st\<lparr>current_slot := Some (digits_value g)\<rparr>) ls
            = Inr (st\<lparr>current_slot := Some (digits_value g)\<rparr>)"
      by (intro scan_inert) (simp_all add: slot_in_range_def)
    with stored show "scan st (raw # ls) = Inr (st\<lparr>current_slot := Some (digits_value g)\<rparr>)"
      by simp
  }
qed

theorem out_of_range_slot_is_stored_witness:
  "loop_body \<lparr>slot_data = init_table, current_slot = Some 3, current_pon = Some 5\<rparr>
     ''dis onu slot 9''
     = Inr \<lparr>slot_data = init_table, current_slot = Some 9, current_pon = Some 5\<rparr>
   \<and> loop_body \<lparr>slot_data = init_table, current_slot = Some 9, current_pon = Some 5\<rparr>
       ''-- Olt9/0/7 --''
     = Inr \<lparr>slot_data = init_table, current_slot = Some 9, current_pon = Some 5\<rparr>
   \<and> scan init_state
       [''dis onu slot 9'', ''-- Olt9/0/5 --'', ''aaaa-bbbb-cccc Onu9/5/1 Up 101'']
     = Inr (init_state\<lparr>current_slot := Some 9\<rparr>)"
proof -
  have a: "re_search slot_pattern (strip ''dis onu slot 9'') = Some ''9''"
    by (simp add: eval_simps)
  have b: "length ''9'' \<le> max_str_digits"
    by (simp add: max_str_digits_def)
  have c: "\<not> (2 \<le> digits_value ''9'' \<and> digits_value ''9'' \<le> 7)"
    by (simp add: eval_simps)
  have v: "digits_value ''9'' = 9"
    by (simp add: eval_simps)
  have d: "\<forall>l\<in>set [''-- Olt9/0/5 --'', ''aaaa-bbbb-cccc Onu9/5/1 Up 101''].
             \<not> str_in ''dis onu slot'' (strip l)"
    by (simp add: eval_simps)
  have e: "\<not> truthy (current_pon init_state)"
    by (simp add: init_state_def truthy_def)
  from out_of_range_slot_is_stored [OF a b c,
      of "\<lparr>slot_data = init_table, current_slot = Some 3, current_pon = Some 5\<rparr>"]
  have first: "loop_body \<lparr>slot_data = init_table, current_slot = Some 3, current_pon = Some 5\<rparr>
       ''dis onu slot 9''
     = Inr \<lparr>slot_data = init_table, current_slot = Some 9, current_pon = Some 5\<rparr>"
    by (simp add: v)
  from out_of_range_slot_is_stored [OF a b c, of init_state] e
  have "\<forall>ls. (\<forall>l\<in>set ls. \<not> str_in ''dis onu slot'' (strip l)) \<longrightarrow>
          scan init_state (''dis onu slot 9'' # ls)
            = Inr (init_state\<lparr>current_slot := Some (digits_value ''9'')\<rparr>)"
    by blast
  with d have third: "scan init_state
       [''dis onu slot 9'', ''-- Olt9/0/5 --'', ''aaaa-bbbb-cccc Onu9/5/1 Up 101'']
     = Inr (init_state\<lparr>current_slot := Some 9\<rparr>)"
    unfolding v by blast
  have second: "loop_body \<lparr>slot_data = init_table, current_slot = Some 9, current_pon = Some 5\<rparr>
       ''-- Olt9/0/7 --''
     = Inr \<lparr>slot_data = init_table, current_slot = Some 9, current_pon = Some 5\<rparr>"
    by (simp add: eval_simps)
  from first second third show ?thesis by simp
qed

subsection \<open>The idle count of the report\<close>

lemma fold_cell_PON: "fold (cell sd s PON) ps n = n"
  by (induction ps arbitrary: n) (simp_all add: cell_def)

lemma fold_cell_Count: "fold (cell sd s (Count k)) ps n = n"
  by (induction ps arbitrary: n) (simp_all add: cell_def)

lemma fold_cell_Idle:
  "fold (cell sd s Idle) ps n = n + (\<Sum>p\<leftarrow>ps. if is_idle sd s p then 1 else 0)"
  by (induction ps arbitrary: n) (simp_all add: cell_def)

lemma fold_rows:
  "fold (\<lambda>lab. fold (cell sd s lab) ps) rows n = n + (\<Sum>p\<leftarrow>ps. if is_idle sd s p then 1 else 0)"
  by (simp add: rows_def fold_cell_PON fold_cell_Count fold_cell_Idle)

lemma upto_1_24: "[1..24] = [1, 2, 3, 4, 5, 6, 7, 8, 9, 10, 11, 12, 13, 14, 15, 16, 17, 18,
    19, 20, 21, 22, 23, 24 :: int]"
  by code_simp

lemma upto_2_7: "[2..7] = [2, 3, 4, 5, 6, 7 :: int]"
  by code_simp

lemma sum_pon_groups:
  fixes f :: "int \<Rightarrow> int"
  shows "fold (\<lambda>group n. n + (\<Sum>p\<leftarrow>group. f p)) pon_groups n = n + (\<Sum>p\<leftarrow>[1..24]. f p)"
  by (simp add: pon_groups_def upto_1_24)

lemma slot_block_sum:
  "slot_block sd s n =
     n + (if has_data sd s then (\<Sum>p\<leftarrow>[1..24]. if is_idle sd s p then 1 else 0) else 0)"
proof -
  have "(\<lambda>group. fold (\<lambda>lab. fold (cell sd s lab) group) rows) =
          (\<lambda>group n. n + (\<Sum>p\<leftarrow>group. if is_idle sd s p then 1 else 0))"
    by (intro ext) (rule fold_rows)
  then show ?thesis
    by (simp only: slot_block_def sum_pon_groups) simp
qed

lemma fold_slot_block:
  "fold (slot_block sd) ss n =
     n + (\<Sum>s\<leftarrow>ss. if has_data sd s then (\<Sum>p\<leftarrow>[1..24]. if is_idle sd s p then 1 else 0) else 0)"
  by (induction ss arbitrary: n) (simp_all add: slot_block_sum)

lemma length_filter_product:
  "int (length (filter (\<lambda>(s, p). H s \<and> I s p) (List.product ss ps))) =
     (\<Sum>s\<leftarrow>ss. if H s then (\<Sum>p\<leftarrow>ps. if I s p then 1 else 0) else 0)"
proof (induction ss)
  case Nil
  then show ?case by simp
next
  case (Cons s ss)
  have "int (length (filter (\<lambda>(s, p). H s \<and> I s p) (map (Pair s) ps))) =
          (if H s then (\<Sum>p\<leftarrow>ps. if I s p then 1 else 0) else 0)"
    by (induction ps) simp_all
  with Cons show ?case by simp
qed

lemma card_grid_filter:
  "card {(s, p). 2 \<le> s \<and> s \<le> 7 \<and> 1 \<le> p \<and> p \<le> 24 \<and> Q s p} =
     length (filter (\<lambda>(s, p). Q s p) (List.product [2..7] [1..24]))"
proof -
  have d: "distinct (List.product [2..7] [1..(24::int)])"
    by (rule distinct_product) simp_all
  have s: "set (List.product [2..7] [1..(24::int)]) = {2..7} \<times> {1..24}"
    by (simp only: set_product set_upto)
  have "{(s, p). 2 \<le> s \<and> s \<le> 7 \<and> 1 \<le> p \<and> p \<le> 24 \<and> Q s p} =
          {x. (\<lambda>(s, p). Q s p) x} \<inter> set (List.product [2..7] [1..24])"
    unfolding s by auto
  with distinct_length_filter [OF d, of "\<lambda>(s, p). Q s p"] show ?thesis by simp
qed

lemma has_data_table_3_5: "has_data table_3_5 s \<longleftrightarrow> s = 3"
  unfolding has_data_iff
  by (auto simp: get_count_def table_3_5_def table_simps split: if_splits)

lemma is_idle_table_3_5: "is_idle table_3_5 s p \<longleftrightarrow> (s, p) \<noteq> (3, 5)"
  by (auto simp: is_idle_def get_count_def table_3_5_def table_simps split: if_splits)

text \<open>
  C4, as the specification states it, fails: the report skips every slot without data,
  so the idle ports of such a slot are not counted. For the table of the scenario,
  where only slot 3 has data, the count is 23, while 143 pairs of the grid are idle.
\<close>

theorem idle_count_skips_empty_slots:
  "parse_epon_data (Some dis_doc) = Inr table_3_5
   \<and> total_idle_count table_3_5 = 23
   \<and> spec_total_idle_count table_3_5 = 143"
proof -
  have "total_idle_count table_3_5 = 23"
    unfolding total_idle_count_def fold_slot_block
    by (simp add: upto_2_7 upto_1_24 has_data_table_3_5 is_idle_table_3_5)
  moreover have "spec_total_idle_count table_3_5 = 143"
    unfolding spec_total_idle_count_def
      length_filter_product [of "\<lambda>s. True" "is_idle table_3_5", simplified]
    by (simp add: upto_2_7 upto_1_24 is_idle_table_3_5)
  ultimately show ?thesis using dis_doc_parse by simp
qed

text \<open>
  C4, amended: \<open>total_idle_count\<close> is the number of pairs of slot and port of the grid
  whose online count is 0 and whose slot has data, that is, has a positive count at
  some port. Within such a slot, the ports that never received data are counted.
\<close>

theorem total_idle_count_shown_slots:
  "total_idle_count sd =
     int (card {(s, p). 2 \<le> s \<and> s \<le> 7 \<and> 1 \<le> p \<and> p \<le> 24 \<and> has_data sd s \<and> is_idle sd s p})"
  unfolding total_idle_count_def fold_slot_block card_grid_filter
    length_filter_product [of "has_data sd" "is_idle sd"]
  by simp

theorem total_idle_count_shown_slots_witness:
  "total_idle_count table_3_5 = 23
   \<and> card {(s, p). 2 \<le> s \<and> s \<le> 7 \<and> 1 \<le> p \<and> p \<le> 24 \<and> has_data table_3_5 s \<and> is_idle table_3_5 s p} = 23"
proof -
  have "total_idle_count table_3_5 = 23"
    unfolding total_idle_count_def fold_slot_block
    by (simp add: upto_2_7 upto_1_24 has_data_table_3_5 is_idle_table_3_5)
  with total_idle_count_shown_slots [of table_3_5] show ?thesis by simp
qed

subsection \<open>Two calls on the same content\<close>

text \<open>The first statements of the method leave nothing of the frame they find.\<close>

lemma enter_init: "enter frame = init_state"
  by (cases frame) (simp add: enter_def init_state_def)

lemma fst_call: "fst (call frame content) = parse_epon_data content"
  by (simp add: call_def Let_def enter_init parse_epon_data_def
        split: option.splits list.splits sum.splits)

lemma dis_doc_scan:
  "scan init_state dis_doc
     = Inr \<lparr>slot_data = table_3_5, current_slot = Some 3, current_pon = Some 5\<rparr>"
  by (simp add: dis_doc_def init_state_def eval_simps table_3_5_def table_simps)

text \<open>
  Without these statements the second call would count every device twice: the loop,
  started in the frame that the first call on the scenario has left, ends with the
  counts (2, 2, 0) at port 5 of slot 3.
\<close>

lemma scan_in_used_frame:
  "\<exists>st. scan \<lparr>slot_data = table_3_5, current_slot = Some 3, current_pon = Some 5\<rparr> dis_doc
           = Inr st
     \<and> get_counts (slot_data st) 3 5 = (2, 2, 0)"
  by (simp add: dis_doc_def eval_simps table_3_5_def table_simps get_counts_def get_count_def)

text \<open>
  C9: two calls on the same content return the same result, the same table when they
  return one, although the second call runs in the frame that the first has left,
  whatever the frame of the first call was: the method assigns the table, the current
  slot and the current port before it reads any of them, and it has no other
  variable that outlives a line. Both results are the result of \<open>parse_epon_data\<close>.
\<close>

theorem parse_twice_identical:
  "fst (parse_twice frame content) = snd (parse_twice frame content)
   \<and> fst (parse_twice frame content) = parse_epon_data content"
proof -
  obtain r1 f1 where c1: "call frame content = (r1, f1)" by (cases "call frame content")
  obtain r2 f2 where c2: "call f1 content = (r2, f2)" by (cases "call f1 content")
  from c1 fst_call [of frame content] have "r1 = parse_epon_data content" by simp
  moreover from c2 fst_call [of f1 content] have "r2 = parse_epon_data content" by simp
  ultimately show ?thesis by (simp add: parse_twice_def c1 c2)
qed

theorem parse_twice_identical_witness:
  "call init_state (Some dis_doc)
     = (Inr table_3_5, \<lparr>slot_data = table_3_5, current_slot = Some 3, current_pon = Some 5\<rparr>)
   \<and> parse_twice init_state (Some dis_doc) = (Inr table_3_5, Inr table_3_5)"
proof -
  have c: "call init_state (Some dis_doc)
     = (Inr table_3_5, \<lparr>slot_data = table_3_5, current_slot = Some 3, current_pon = Some 5\<rparr>)"
    using dis_doc_scan by (simp add: call_def enter_init dis_doc_def)
  note t = parse_twice_identical [of init_state "Some dis_doc"]
  from t have "fst (parse_twice init_state (Some dis_doc)) = parse_epon_data (Some dis_doc)"
    by (rule conjunct2)
  with dis_doc_parse have f: "fst (parse_twice init_state (Some dis_doc)) = Inr table_3_5"
    by simp
  from t have "fst (parse_twice init_state (Some dis_doc))
      = snd (parse_twice init_state (Some dis_doc))"
    by (rule conjunct1)
  from this [symmetric] f have "snd (parse_twice init_state (Some dis_doc)) = Inr table_3_5"
    by (rule trans)
  with f have "parse_twice init_state (Some dis_doc) = (Inr table_3_5, Inr table_3_5)"
    by (simp add: prod_eq_iff)
  with c show ?thesis by simp
qed

end
